theory Spec2Isabelle
  imports Complex_Main
begin

section \<open>Constants (src/options.ts)\<close>

definition PARTICLE_COUNT :: nat where
  "PARTICLE_COUNT = 50000"

definition COLOUR_COUNT :: nat where
  "COLOUR_COUNT = 200"

definition MATRIX_SIZE :: nat where
  "MATRIX_SIZE = COLOUR_COUNT * COLOUR_COUNT"

section \<open>Engine orchestration (src/linkedList/main.ts)\<close>

text \<open>
  The two ping-pong particle buffers are identified by their index (0 or 1) in
  \<open>particleBuffers\<close>.  A construct bind group is known by the particle buffer it
  binds as \<open>particlesIn\<close>; a sim bind group by the pair
  \<open>(particlesIn, particlesOut)\<close>.  The command encoder is the list of the commands
  recorded on it, oldest first; a compute pass is recorded with its bind group and the
  number of workgroups it dispatches.
\<close>

datatype command =
    CopyHeadsInit
  | ConstructPass nat nat
  | SimPass "nat \<times> nat" nat

record LinkedListEngine =
  constructBindGroups :: "nat list"
  simBindGroups :: "(nat \<times> nat) list"
  step :: int

text \<open>Indexing a JavaScript array by a number: \<open>undefined\<close> outside the array.\<close>

definition js_index :: "'a list \<Rightarrow> int \<Rightarrow> 'a option" where
  "js_index xs i = (if 0 \<le> i \<and> nat i < length xs then Some (xs ! nat i) else None)"

definition makeConstructBG :: "nat \<Rightarrow> nat" where
  "makeConstructBG particlesIn = particlesIn"

definition makeSimBG :: "nat \<Rightarrow> nat \<Rightarrow> nat \<times> nat" where
  "makeSimBG particlesIn particlesOut = (particlesIn, particlesOut)"

definition createBindGroups :: "LinkedListEngine \<Rightarrow> LinkedListEngine" where
  "createBindGroups eng =
     eng\<lparr> constructBindGroups := [makeConstructBG 0, makeConstructBG 1],
          simBindGroups := [makeSimBG 0 1, makeSimBG 1 0] \<rparr>"

definition new_engine :: LinkedListEngine where
  "new_engine =
     createBindGroups \<lparr> constructBindGroups = [], simBindGroups = [], step = 0 \<rparr>"

text \<open>
  \<open>tick\<close> records, in this order, the heads reset, the construct pass with bind group
  \<open>s\<close> and the sim pass with bind group \<open>s\<close>, each pass dispatching
  \<open>ceil(PARTICLE_COUNT / 64)\<close> workgroups, then flips \<open>step\<close>.  A bind group that is
  \<open>undefined\<close> gives no result.
\<close>

definition tick :: "LinkedListEngine \<Rightarrow> command list \<Rightarrow> (LinkedListEngine \<times> command list) option" where
  "tick eng encoder =
     (let s = step eng in
      case js_index (constructBindGroups eng) s of
        None \<Rightarrow> None
      | Some cbg \<Rightarrow>
          (case js_index (simBindGroups eng) s of
             None \<Rightarrow> None
           | Some sbg \<Rightarrow>
               Some (eng\<lparr> step := 1 - s \<rparr>,
                     encoder @ [CopyHeadsInit,
                                ConstructPass cbg (nat \<lceil>real PARTICLE_COUNT / 64\<rceil>),
                                SimPass sbg (nat \<lceil>real PARTICLE_COUNT / 64\<rceil>)])))"

definition currentBufferIndex :: "LinkedListEngine \<Rightarrow> int" where
  "currentBufferIndex eng = 1 - step eng"

text \<open>
  \<open>createAccelerationBuffers\<close>: the head table has \<open>maxCells\<close> entries, and
  \<open>headsInitBuffer\<close> holds the sentinel \<open>-1\<close> in every entry.  Both shaders have
  \<open>@workgroup_size(64)\<close>: a dispatch of \<open>w\<close> workgroups runs the invocations
  \<open>0 ..< invocations w\<close>.
\<close>

definition maxDim :: nat where
  "maxDim = nat \<lceil>6 * 2 * 2 :: real\<rceil> + 2"

definition maxCells :: nat where
  "maxCells = maxDim * maxDim * 4"

definition headsInit :: "int list" where
  "headsInit = replicate maxCells (- 1)"

definition invocations :: "nat \<Rightarrow> nat" where
  "invocations w = w * 64"

section \<open>Shader values\<close>

text \<open>
  Values of type \<open>f32\<close> are modelled as real numbers: every operation is exact, and
  rounding, infinities and NaN are not represented; nor is a division by zero, and the
  theorems about cell coordinates take the radius positive.  A \<open>u32\<close> is a natural number
  below \<open>2 ^ 32\<close> and an \<open>i32\<close> an integer in \<open>[-2 ^ 31, 2 ^ 31)\<close>; the
  wrap-around of their arithmetic is written out (\<open>u32\<close>, \<open>i32\<close>).  A conversion
  from \<open>f32\<close> to an integer type rounds toward zero and saturates at the bounds of
  the target type; a conversion between \<open>u32\<close> and \<open>i32\<close> keeps the bit pattern.
\<close>

definition u32 :: "nat \<Rightarrow> nat" where
  "u32 n = n mod 4294967296"

definition i32 :: "int \<Rightarrow> int" where
  "i32 z = (z + 2147483648) mod 4294967296 - 2147483648"

definition u32_of_f32 :: "real \<Rightarrow> nat" where
  "u32_of_f32 v = min (nat \<lfloor>v\<rfloor>) 4294967295"

definition i32_of_f32 :: "real \<Rightarrow> int" where
  "i32_of_f32 v =
     max (- 2147483648) (min (if 0 \<le> v then \<lfloor>v\<rfloor> else \<lceil>v\<rceil>) 2147483647)"

definition i32_of_u32 :: "nat \<Rightarrow> int" where
  "i32_of_u32 n = (if n < 2147483648 then int n else int n - 4294967296)"

definition u32_of_i32 :: "int \<Rightarrow> nat" where
  "u32_of_i32 z = nat (z mod 4294967296)"

type_synonym vec2 = "real \<times> real"

definition vadd :: "vec2 \<Rightarrow> vec2 \<Rightarrow> vec2" where
  "vadd a b = (fst a + fst b, snd a + snd b)"

definition vsub :: "vec2 \<Rightarrow> vec2 \<Rightarrow> vec2" where
  "vsub a b = (fst a - fst b, snd a - snd b)"

definition vscale :: "vec2 \<Rightarrow> real \<Rightarrow> vec2" where
  "vscale a k = (fst a * k, snd a * k)"

definition vdiv :: "vec2 \<Rightarrow> real \<Rightarrow> vec2" where
  "vdiv a k = (fst a / k, snd a / k)"

definition dot :: "vec2 \<Rightarrow> vec2 \<Rightarrow> real" where
  "dot a b = fst a * fst b + snd a * snd b"

definition clamp :: "real \<Rightarrow> real \<Rightarrow> real \<Rightarrow> real" where
  "clamp e low high = min (max e low) high"

text \<open>
  A particle is one \<open>vec4<f32>\<close>, built from two \<open>vec2\<close>: \<open>xy\<close> is the position
  and \<open>zw\<close> the velocity.
\<close>

record Particle =
  pos :: "vec2 \<times> vec2"

definition xy :: "Particle \<Rightarrow> vec2" where
  "xy p = fst (pos p)"

definition zw :: "Particle \<Rightarrow> vec2" where
  "zw p = snd (pos p)"

record Sim =
  colours :: nat
  r :: real
  force :: real
  friction :: real
  beta :: real
  delta :: real
  avoidance :: real
  worldSize :: real
  border :: nat
  vortex :: nat

text \<open>
  A storage buffer is the list of its elements.  An access outside the buffer is a
  dynamic error of the shader: it has no defined value, so it is the result
  \<open>Inl OutOfBounds\<close>.
\<close>

datatype error = OutOfBounds

definition load :: "'a list \<Rightarrow> int \<Rightarrow> error + 'a" where
  "load xs i = (if 0 \<le> i \<and> nat i < length xs then Inr (xs ! nat i) else Inl OutOfBounds)"

text \<open>The default parameters of src/options.ts, as \<open>setSim\<close> writes them.\<close>

definition defaultOptions :: Sim where
  "defaultOptions =
     \<lparr> colours = COLOUR_COUNT, r = 15, force = 1, friction = 0.04, beta = 0.3, delta = 0.02,
       avoidance = 4, worldSize = 6, border = 1, vortex = 0 \<rparr>"

section \<open>Grid Builder (src/linkedList/construct.wgsl)\<close>

definition gridDim :: "Sim \<Rightarrow> nat" where
  "gridDim sim = u32 (u32_of_f32 (of_int \<lceil>worldSize sim * 2 / r sim\<rceil>) + 1)"

definition cellCoord :: "real \<Rightarrow> Sim \<Rightarrow> nat" where
  "cellCoord v sim =
     (let half = worldSize sim;
          clamped = clamp v (- half) half;
          norm = (clamped + half) / r sim
      in u32_of_f32 (of_int \<lfloor>norm\<rfloor>))"

definition cellIndex :: "nat \<Rightarrow> nat \<Rightarrow> nat \<Rightarrow> nat" where
  "cellIndex cx cy gdim = u32 (cy * gdim + cx)"

text \<open>The flat cell index that \<open>main\<close> computes for a particle (lines 69-72).\<close>

definition particle_cell :: "Sim \<Rightarrow> Particle \<Rightarrow> nat" where
  "particle_cell sim p =
     (let gdim = gridDim sim;
          cx = cellCoord (fst (xy p)) sim;
          cy = cellCoord (snd (xy p)) sim
      in cellIndex cx cy gdim)"

text \<open>
  An invocation of \<open>main\<close> with \<open>gid.x = idx\<close> that does not return at once
  performs two atomic operations: the exchange on \<open>heads[cell]\<close>, which returns
  \<open>prev\<close>, and then the store of \<open>prev\<close> into \<open>linked[idx]\<close>.  The operations of
  different invocations interleave.  The state of a construct pass is \<open>heads\<close>,
  \<open>linked\<close> and, for each invocation that has done its exchange and not yet its
  store, the value \<open>prev\<close> it holds.  An invocation that returns at once
  (\<open>idx >= count\<close>) does nothing at either of its two events.
\<close>

datatype event = Exchange nat | Store nat

type_synonym construct_state = "int list \<times> int list \<times> (nat \<rightharpoonup> int)"

definition construct_step ::
  "Sim \<Rightarrow> Particle list \<Rightarrow> event \<Rightarrow> construct_state \<Rightarrow> error + construct_state" where
  "construct_step sim particles ev st =
     (let heads = fst st;
          linked = fst (snd st);
          prev = snd (snd st);
          count = length particles
      in case ev of
           Exchange idx \<Rightarrow>
             (if idx \<ge> count then Inr st
              else
                (let p = particles ! idx;
                     cell = particle_cell sim p
                 in if cell < length heads then
                      Inr (heads[cell := i32_of_u32 idx], linked, prev(idx \<mapsto> heads ! cell))
                    else Inl OutOfBounds))
         | Store idx \<Rightarrow>
             (case prev idx of
                None \<Rightarrow> Inr st
              | Some v \<Rightarrow>
                  (if idx < length linked then Inr (heads, linked[idx := v], prev(idx := None))
                   else Inl OutOfBounds)))"

text \<open>A pass runs a list of atomic operations, and stops at the first dynamic error.\<close>

fun construct_run ::
  "Sim \<Rightarrow> Particle list \<Rightarrow> event list \<Rightarrow> construct_state \<Rightarrow> error + construct_state" where
  "construct_run sim particles [] st = Inr st"
| "construct_run sim particles (ev # evs) st =
     (case construct_step sim particles ev st of
        Inl e \<Rightarrow> Inl e
      | Inr st' \<Rightarrow> construct_run sim particles evs st')"

text \<open>
  \<open>scheduled started pending evs\<close>: the list \<open>evs\<close> is an interleaving of
  invocations, each doing its exchange once and its store once, later; \<open>started\<close> are
  the invocations that have done their exchange and \<open>pending\<close> those among them that
  have not yet done their store.  \<open>exchanges evs\<close> is the order in which the exchanges
  are serialized.
\<close>

fun scheduled :: "nat list \<Rightarrow> nat list \<Rightarrow> event list \<Rightarrow> bool" where
  "scheduled started pending [] = (pending = [])"
| "scheduled started pending (Exchange i # evs) =
     (i \<notin> set started \<and> scheduled (i # started) (i # pending) evs)"
| "scheduled started pending (Store i # evs) =
     (i \<in> set pending \<and> scheduled started (removeAll i pending) evs)"

fun exchanges :: "event list \<Rightarrow> nat list" where
  "exchanges [] = []"
| "exchanges (Exchange i # evs) = i # exchanges evs"
| "exchanges (Store i # evs) = exchanges evs"

text \<open>
  The same pass with every invocation run without interruption, in the order \<open>ord\<close>
  of the exchanges: \<open>construct_main\<close> is \<open>main\<close> run as a whole.
\<close>

definition construct_main ::
  "Sim \<Rightarrow> Particle list \<Rightarrow> nat \<Rightarrow> int list \<times> int list \<Rightarrow> error + int list \<times> int list" where
  "construct_main sim particles idx hl =
     (let heads = fst hl;
          linked = snd hl;
          count = length particles
      in if idx \<ge> count then Inr (heads, linked)
         else
           (let p = particles ! idx;
                cell = particle_cell sim p
            in if cell < length heads then
                 (let prev = heads ! cell;
                      heads = heads[cell := i32_of_u32 idx]
                  in if idx < length linked then Inr (heads, linked[idx := prev])
                     else Inl OutOfBounds)
               else Inl OutOfBounds))"

fun construct_dispatch ::
  "Sim \<Rightarrow> Particle list \<Rightarrow> nat list \<Rightarrow> int list \<times> int list \<Rightarrow> error + int list \<times> int list" where
  "construct_dispatch sim particles [] hl = Inr hl"
| "construct_dispatch sim particles (idx # ord) hl =
     (case construct_main sim particles idx hl of
        Inl e \<Rightarrow> Inl e
      | Inr hl' \<Rightarrow> construct_dispatch sim particles ord hl')"

section \<open>Force Integrator (src/linkedList/sim.wgsl)\<close>

text \<open>\<open>gridDim\<close> is the same function in both shaders.\<close>

definition sim_cellCoord :: "real \<Rightarrow> Sim \<Rightarrow> int" where
  "sim_cellCoord v sim =
     (let half = worldSize sim;
          clamped = clamp v (- half) half
      in i32_of_f32 (of_int \<lfloor>(clamped + half) / r sim\<rfloor>))"

definition sim_cellIndex :: "int \<Rightarrow> int \<Rightarrow> int \<Rightarrow> int" where
  "sim_cellIndex cx cy gdim = i32 (cy * gdim + cx)"

definition forceCurve :: "real \<Rightarrow> real \<Rightarrow> real \<Rightarrow> real" where
  "forceCurve d b coeff =
     (if d < b then d / b - 1
      else if d < 1 then coeff * (1 - \<bar>2 * d - 1 - b\<bar> / (1 - b))
      else 0)"

text \<open>The shortest-path correction of a displacement in a toroidal world (lines 107-113).\<close>

definition wrap_diff :: "Sim \<Rightarrow> vec2 \<Rightarrow> vec2" where
  "wrap_diff sim diff =
     (if border sim = 1 then
        (let half = worldSize sim;
             dx = fst diff;
             dx = (if dx > half then dx - half * 2 else dx);
             dx = (if dx < - half then dx + half * 2 else dx);
             dy = snd diff;
             dy = (if dy > half then dy - half * 2 else dy);
             dy = (if dy < - half then dy + half * 2 else dy)
         in (dx, dy))
      else diff)"

text \<open>
  The body of the \<open>while j >= 0\<close> loop for one list element \<open>j\<close> (lines 102-133):
  the new value of the accumulator \<open>acc\<close>.
\<close>

definition interact ::
  "Sim \<Rightarrow> Particle list \<Rightarrow> real list \<Rightarrow> nat list \<Rightarrow> nat \<Rightarrow> nat \<Rightarrow> vec2 \<Rightarrow> vec2 \<Rightarrow> int
     \<Rightarrow> error + vec2" where
  "interact sim particles matrix colourIdx idx myColour p acc j =
     (if u32_of_i32 j \<noteq> idx then
        (case load particles j of
           Inl e \<Rightarrow> Inl e
         | Inr q \<Rightarrow>
             (let diff = wrap_diff sim (vsub (xy q) p);
                  distSq = dot diff diff
              in if distSq > 0 \<and> distSq < r sim * r sim then
                   (let dst = sqrt distSq;
                        normD = dst / r sim;
                        dir = vdiv diff dst
                    in case load colourIdx j of
                         Inl e \<Rightarrow> Inl e
                       | Inr theirColour \<Rightarrow>
                           (case load matrix (int (u32 (myColour * colours sim + theirColour))) of
                              Inl e \<Rightarrow> Inl e
                            | Inr coeff \<Rightarrow>
                                (let f = forceCurve normD (beta sim) coeff;
                                     avoidF = (if dst < avoidance sim
                                               then - (avoidance sim / dst - 1) * 0.5 else 0)
                                 in Inr (vadd acc (vscale dir (f + avoidF))))))
                 else Inr acc))
      else Inr acc)"

text \<open>
  The loop \<open>while j >= 0 { body; j = linked[j]; }\<close> (lines 101-135), for any body.
  The loop need not end (a cycle in \<open>linked\<close>): not returning is the value \<open>None\<close>.
\<close>

partial_function (option) walk ::
  "('a \<Rightarrow> int \<Rightarrow> error + 'a) \<Rightarrow> int list \<Rightarrow> 'a \<Rightarrow> int \<Rightarrow> (error + 'a) option" where
  "walk body linked acc j =
     (if j \<ge> 0 then
        (case body acc j of
           Inl e \<Rightarrow> Some (Inl e)
         | Inr acc' \<Rightarrow>
             (case load linked j of
                Inl e \<Rightarrow> Some (Inl e)
              | Inr j' \<Rightarrow> walk body linked acc' j'))
      else Some (Inr acc))"

text \<open>
  The two \<open>for\<close> loops over the 3 by 3 neighbourhood (lines 92-137), as a recursion over
  the list of the offsets \<open>(dx, dy)\<close> in the order the loops visit them.
\<close>

definition offsets :: "(int \<times> int) list" where
  "offsets = [(- 1, - 1), (0, - 1), (1, - 1), (- 1, 0), (0, 0), (1, 0), (- 1, 1), (0, 1), (1, 1)]"

fun neighbourhood ::
  "(vec2 \<Rightarrow> int \<Rightarrow> error + vec2) \<Rightarrow> int list \<Rightarrow> int list \<Rightarrow> int \<Rightarrow> int \<Rightarrow> int \<Rightarrow> vec2
     \<Rightarrow> (int \<times> int) list \<Rightarrow> (error + vec2) option" where
  "neighbourhood body heads linked gdim cx cy acc [] = Some (Inr acc)"
| "neighbourhood body heads linked gdim cx cy acc ((dx, dy) # rest) =
     (let nx = i32 (cx + dx);
          ny = i32 (cy + dy)
      in if nx < 0 \<or> ny < 0 \<or> nx \<ge> gdim \<or> ny \<ge> gdim then
           neighbourhood body heads linked gdim cx cy acc rest
         else
           (case load heads (sim_cellIndex nx ny gdim) of
              Inl e \<Rightarrow> Some (Inl e)
            | Inr j \<Rightarrow>
                (case walk body linked acc j of
                   None \<Rightarrow> None
                 | Some (Inl e) \<Rightarrow> Some (Inl e)
                 | Some (Inr acc') \<Rightarrow> neighbourhood body heads linked gdim cx cy acc' rest)))"

text \<open>Scaling, the optional vortex and the integration (lines 139-149).\<close>

definition integrate :: "Sim \<Rightarrow> vec2 \<Rightarrow> vec2 \<Rightarrow> vec2 \<Rightarrow> vec2 \<times> vec2" where
  "integrate sim p vel acc =
     (let acc = vscale acc (force sim * r sim);
          acc = (if vortex sim = 1 then vadd acc (vscale (- snd vel, fst vel) 0.01) else acc);
          vel = vadd (vscale vel (1 - friction sim)) (vscale acc (delta sim));
          p = vadd p (vscale vel (delta sim))
      in (p, vel))"

text \<open>Border handling (lines 151-165): the four tests run one after the other.\<close>

definition border_handling :: "Sim \<Rightarrow> vec2 \<times> vec2 \<Rightarrow> vec2 \<times> vec2" where
  "border_handling sim pv =
     (let half = worldSize sim;
          px = fst (fst pv); py = snd (fst pv);
          vx = fst (snd pv); vy = snd (snd pv)
      in if border sim = 1 then
           (let px = (if px > half then px - half * 2 else px);
                px = (if px < - half then px + half * 2 else px);
                py = (if py > half then py - half * 2 else py);
                py = (if py < - half then py + half * 2 else py)
            in ((px, py), (vx, vy)))
         else
           (let (px, vx) = (if px > half then (half, - \<bar>vx\<bar>) else (px, vx));
                (px, vx) = (if px < - half then (- half, \<bar>vx\<bar>) else (px, vx));
                (py, vy) = (if py > half then (half, - \<bar>vy\<bar>) else (py, vy));
                (py, vy) = (if py < - half then (- half, \<bar>vy\<bar>) else (py, vy))
            in ((px, py), (vx, vy))))"

text \<open>
  One invocation of \<open>main\<close> with \<open>gid.x = idx\<close>: \<open>Some (Inr None)\<close> when the thread
  returns at once (\<open>idx >= count\<close>), \<open>Some (Inr (Some q))\<close> when it ends with the
  store \<open>output[idx] = q\<close>, \<open>Some (Inl e)\<close> on a dynamic error, \<open>None\<close> when the
  thread never ends.
\<close>

definition sim_main ::
  "Sim \<Rightarrow> Particle list \<Rightarrow> real list \<Rightarrow> int list \<Rightarrow> int list \<Rightarrow> nat list \<Rightarrow> nat
     \<Rightarrow> (error + Particle option) option" where
  "sim_main sim particles matrix heads linked colourIdx idx =
     (let count = length particles
      in if idx \<ge> count then Some (Inr None)
         else
           (let p = particles ! idx;
                ps = xy p;
                vel = zw p
            in case load colourIdx (int idx) of
                 Inl e \<Rightarrow> Some (Inl e)
               | Inr myColour \<Rightarrow>
                   (let gdim = i32_of_u32 (gridDim sim);
                        cx = sim_cellCoord (fst ps) sim;
                        cy = sim_cellCoord (snd ps) sim
                    in case neighbourhood (interact sim particles matrix colourIdx idx myColour ps)
                              heads linked gdim cx cy (0, 0) offsets of
                         None \<Rightarrow> None
                       | Some (Inl e) \<Rightarrow> Some (Inl e)
                       | Some (Inr acc) \<Rightarrow>
                           Some (Inr (Some \<lparr> pos = border_handling sim (integrate sim ps vel acc) \<rparr>)))))"

text \<open>
  Following one cell's list from \<open>heads[cell]\<close> to the sentinel is the same loop with
  a body that records the index it visits.
\<close>

definition visit :: "nat list \<Rightarrow> int \<Rightarrow> error + nat list" where
  "visit xs j = Inr (xs @ [nat j])"

definition traverse :: "int list \<Rightarrow> int list \<Rightarrow> nat \<Rightarrow> (error + nat list) option" where
  "traverse heads linked cell =
     (case load heads (int cell) of
        Inl e \<Rightarrow> Some (Inl e)
      | Inr j \<Rightarrow> walk visit linked [] j)"

section \<open>The buffers of a sim pass\<close>

text \<open>
  The buffers that a sim bind group binds.  The bind group \<open>(particlesIn, particlesOut)\<close>
  names two entries of \<open>particleBuffers\<close>; each invocation reads \<open>particles\<close> from
  the store as it is when the invocation runs, and writes \<open>output[idx]\<close> into it.
  \<open>bound_main\<close> is \<open>main\<close> of sim.wgsl with its seven bindings taken from the
  store.
\<close>

record gpu =
  simBuffer :: Sim
  matrixBuffer :: "real list"
  colourBuffer :: "nat list"
  particleBuffers :: "Particle list list"
  headsBuffer :: "int list"
  linkedBuffer :: "int list"

definition bound_main :: "gpu \<Rightarrow> nat \<Rightarrow> nat \<Rightarrow> (error + Particle option) option" where
  "bound_main g particlesIn idx =
     sim_main (simBuffer g) (particleBuffers g ! particlesIn) (matrixBuffer g)
       (headsBuffer g) (linkedBuffer g) (colourBuffer g) idx"

definition sim_invocation :: "nat \<times> nat \<Rightarrow> nat \<Rightarrow> gpu \<Rightarrow> (error + gpu) option" where
  "sim_invocation bg idx g =
     (let particlesIn = fst bg;
          particlesOut = snd bg
      in case bound_main g particlesIn idx of
           None \<Rightarrow> None
         | Some (Inl e) \<Rightarrow> Some (Inl e)
         | Some (Inr None) \<Rightarrow> Some (Inr g)
         | Some (Inr (Some q)) \<Rightarrow>
             (if idx < length (particleBuffers g ! particlesOut) then
                Some (Inr (g\<lparr> particleBuffers :=
                              (particleBuffers g)[particlesOut :=
                                 (particleBuffers g ! particlesOut)[idx := q]] \<rparr>))
              else Some (Inl OutOfBounds)))"

fun sim_dispatch :: "nat \<times> nat \<Rightarrow> nat list \<Rightarrow> gpu \<Rightarrow> (error + gpu) option" where
  "sim_dispatch bg [] g = Some (Inr g)"
| "sim_dispatch bg (idx # ord) g =
     (case sim_invocation bg idx g of
        None \<Rightarrow> None
      | Some (Inl e) \<Rightarrow> Some (Inl e)
      | Some (Inr g') \<Rightarrow> sim_dispatch bg ord g')"

section \<open>Lists in the grid\<close>

text \<open>
  \<open>chain linked j xs\<close>: starting at \<open>j\<close> and following \<open>linked\<close>, the indices met
  are exactly \<open>xs\<close>, in this order, and then comes a negative value.
  \<open>run_body\<close> applies a loop body along such a list.  \<open>cell_list\<close> is the list of
  the particles of a cell, latest invocation first, for the invocation order \<open>ord\<close>.
\<close>

fun chain :: "int list \<Rightarrow> int \<Rightarrow> nat list \<Rightarrow> bool" where
  "chain linked j [] = (j < 0)"
| "chain linked j (i # xs) = (j = int i \<and> i < length linked \<and> chain linked (linked ! i) xs)"

fun run_body :: "('a \<Rightarrow> int \<Rightarrow> error + 'a) \<Rightarrow> 'a \<Rightarrow> nat list \<Rightarrow> error + 'a" where
  "run_body body acc [] = Inr acc"
| "run_body body acc (i # xs) =
     (case body acc (int i) of Inl e \<Rightarrow> Inl e | Inr acc' \<Rightarrow> run_body body acc' xs)"

definition cell_list :: "Sim \<Rightarrow> Particle list \<Rightarrow> nat list \<Rightarrow> nat \<Rightarrow> nat list" where
  "cell_list sim particles ord c =
     rev (filter (\<lambda>i. i < length particles \<and> particle_cell sim (particles ! i) = c) ord)"

definition grid_inv :: "Sim \<Rightarrow> Particle list \<Rightarrow> nat list \<Rightarrow> int list \<Rightarrow> int list \<Rightarrow> bool" where
  "grid_inv sim particles seen heads linked =
     (\<forall>c < length heads. chain linked (heads ! c) (cell_list sim particles seen c))"

text \<open>
  \<open>fine_rel\<close> relates a state of the interleaved pass to the state of the pass that
  runs the invocations whole, in the order of the exchanges done so far: the heads
  agree, and \<open>linked\<close> agrees except where an invocation still holds its \<open>prev\<close>.
\<close>

fun fine_rel :: "nat list \<Rightarrow> construct_state \<Rightarrow> int list \<times> int list \<Rightarrow> bool" where
  "fine_rel pending (h, l, prev) (H, L) =
     (h = H \<and> length l = length L
      \<and> (\<forall>i. prev i \<noteq> None \<longrightarrow> i \<in> set pending \<and> i < length L)
      \<and> (\<forall>i < length L. (case prev i of Some v \<Rightarrow> L ! i = v | None \<Rightarrow> l ! i = L ! i)))"

text \<open>
  \<open>same_inputs\<close>: two stores agree on everything a sim pass with input buffer
  \<open>particlesIn\<close> reads.  \<open>sim_ready\<close>: the store is one in which \<open>tick\<close> runs the
  sim pass: the parameters are positive and their grid fits the head table, the
  colour indices are below \<open>colours\<close> and the matrix has \<open>colours * colours\<close> entries,
  the buffers have an entry for each particle, and \<open>heads\<close> and \<open>linked\<close> are what
  the construct pass (in some interleaving \<open>evs\<close>) built from the input buffer,
  starting from the sentinel.
\<close>

definition same_inputs :: "nat \<Rightarrow> gpu \<Rightarrow> gpu \<Rightarrow> bool" where
  "same_inputs particlesIn g g' =
     (simBuffer g' = simBuffer g \<and> matrixBuffer g' = matrixBuffer g
      \<and> colourBuffer g' = colourBuffer g \<and> headsBuffer g' = headsBuffer g
      \<and> linkedBuffer g' = linkedBuffer g
      \<and> length (particleBuffers g') = length (particleBuffers g)
      \<and> particleBuffers g' ! particlesIn = particleBuffers g ! particlesIn)"

definition sim_ready :: "gpu \<Rightarrow> nat \<times> nat \<Rightarrow> event list \<Rightarrow> int list \<Rightarrow> bool" where
  "sim_ready g bg evs linked0 =
     (let sim = simBuffer g;
          particles = particleBuffers g ! fst bg;
          n = length particles
      in 0 < r sim \<and> 0 < worldSize sim \<and> worldSize sim * 2 / r sim \<le> 4294967294
         \<and> gridDim sim * gridDim sim \<le> length (headsBuffer g)
         \<and> length (headsBuffer g) \<le> 2147483648
         \<and> scheduled [] [] evs \<and> n \<le> length linked0 \<and> n \<le> 2147483648
         \<and> construct_run sim particles evs
               (replicate (length (headsBuffer g)) (- 1), linked0, Map.empty)
               = Inr (headsBuffer g, linkedBuffer g, Map.empty)
         \<and> n \<le> length (colourBuffer g)
         \<and> (\<forall>c \<in> set (colourBuffer g). c < colours sim)
         \<and> colours sim * colours sim \<le> length (matrixBuffer g)
         \<and> n \<le> length (particleBuffers g ! snd bg))"

text \<open>A small store: two particles in one cell, after the construct pass on buffer 0.\<close>

definition example_gpu :: gpu where
  "example_gpu =
     \<lparr> simBuffer = defaultOptions\<lparr>colours := 2\<rparr>,
       matrixBuffer = [1 / 2, 0, 0, 1 / 2],
       colourBuffer = [0, 0],
       particleBuffers = [[\<lparr>pos = ((0, 0), (0, 0))\<rparr>, \<lparr>pos = ((3, 4), (0, 0))\<rparr>],
                          [\<lparr>pos = ((0, 0), (0, 0))\<rparr>, \<lparr>pos = ((3, 4), (0, 0))\<rparr>]],
       headsBuffer = [1, - 1, - 1, - 1],
       linkedBuffer = [- 1, 0] \<rparr>"

section \<open>The ping-pong index\<close>

lemma workgroups_PARTICLE_COUNT: "nat \<lceil>real PARTICLE_COUNT / 64\<rceil> = 782"
proof -
  have "\<lceil>50000 / 64 :: real\<rceil> = 782" by (simp add: ceiling_eq_iff)
  then show ?thesis by (simp add: PARTICLE_COUNT_def)
qed

lemma invocations_cover: "PARTICLE_COUNT \<le> invocations (nat \<lceil>real PARTICLE_COUNT / 64\<rceil>)"
  unfolding workgroups_PARTICLE_COUNT by (simp add: invocations_def PARTICLE_COUNT_def)

lemma tick_step:
  assumes "step eng = 0 \<or> step eng = 1"
  shows "tick (createBindGroups eng) enc =
           Some (createBindGroups eng\<lparr> step := 1 - step eng \<rparr>,
                 enc @ [CopyHeadsInit, ConstructPass (nat (step eng)) 782,
                        SimPass (nat (step eng), nat (1 - step eng)) 782])"
  using assms
  by (auto simp: tick_def createBindGroups_def js_index_def makeConstructBG_def
      makeSimBG_def Let_def workgroups_PARTICLE_COUNT)

text \<open>
  For either value of \<open>step\<close>, after \<open>tick\<close> the getter returns the old \<open>step\<close>,
  which is the \<open>particlesIn\<close> of the sim pass just recorded.
\<close>

lemma currentBufferIndex_after_tick:
  assumes "step eng = 0 \<or> step eng = 1"
    and "tick (createBindGroups eng) enc = Some (eng', enc')"
  shows "currentBufferIndex eng' = step eng"
    and "last enc' = SimPass (nat (step eng), nat (1 - step eng)) 782"
  using assms(2) unfolding tick_step [OF assms(1)]
  by (auto simp: currentBufferIndex_def)

text \<open>
  C1.  On a freshly constructed engine (\<open>step = 0\<close>) one \<open>tick\<close> records a sim pass
  whose bind group reads particle buffer 0 and writes particle buffer 1, and leaves
  \<open>step = 1\<close>.  \<open>currentBufferIndex\<close> then returns 0: the buffer the sim pass read,
  not buffer 1, which the sim pass just wrote.
\<close>

theorem tick_currentBufferIndex_fresh:
  "map_option (\<lambda>(eng', enc). (step eng', currentBufferIndex eng', enc)) (tick new_engine [])
     = Some (1, 0, [CopyHeadsInit, ConstructPass 0 782, SimPass (0, 1) 782])"
  by (simp add: tick_def new_engine_def createBindGroups_def js_index_def makeConstructBG_def
      makeSimBG_def currentBufferIndex_def workgroups_PARTICLE_COUNT)

section \<open>The force curve\<close>



section \<open>Running the list loop\<close>

lemma walk_end:
  assumes "j < 0"
  shows "walk body linked acc j = Some (Inr acc)"
  using assms by (subst walk.simps) simp

lemma walk_step:
  assumes "0 \<le> j" and "body acc j = Inr acc'" and "load linked j = Inr j'"
  shows "walk body linked acc j = walk body linked acc' j'"
  using assms by (subst walk.simps) simp

section \<open>The pairwise cutoff\<close>

lemma sqrt_ge_radius:
  assumes "0 < rad" and "sqrt d / rad \<ge> 1" and "0 \<le> d"
  shows "\<not> d < rad * rad"
proof -
  from assms have "rad \<le> sqrt d" by (simp add: field_simps)
  then have "rad * rad \<le> sqrt d * sqrt d" using assms(1,3) by (intro mult_mono) simp_all
  then show ?thesis using assms(3) by simp
qed

lemma dot_self_nonneg: "0 \<le> dot v v"
  by (simp add: dot_def)

text \<open>
  C4.  Let \<open>j\<close> be a list element other than the invocation's own particle, \<open>q\<close> the
  particle loaded for it, \<open>diff\<close> the wrap-corrected displacement and \<open>distSq\<close> its
  squared length.  When \<open>distSq\<close> is not strictly between 0 and the squared radius the
  accumulator is left as it is; when it is, the accumulator receives the term
  \<open>dir * (f + avoidF)\<close>.  In particular a pair at zero displacement, and a pair at
  normalised distance at least 1, leave the accumulator unchanged.
\<close>

theorem interact_cutoff:
  assumes "u32_of_i32 j \<noteq> idx" and "load particles j = Inr q"
    and "diff = wrap_diff sim (vsub (xy q) p)" and "distSq = dot diff diff"
  shows "(\<not> (0 < distSq \<and> distSq < r sim * r sim) \<longrightarrow>
            interact sim particles matrix colourIdx idx myColour p acc j = Inr acc)
       \<and> (0 < distSq \<and> distSq < r sim * r sim
            \<and> load colourIdx j = Inr c
            \<and> load matrix (int (u32 (myColour * colours sim + c))) = Inr coeff \<longrightarrow>
            interact sim particles matrix colourIdx idx myColour p acc j =
              Inr (vadd acc (vscale (vdiv diff (sqrt distSq))
                     (forceCurve (sqrt distSq / r sim) (beta sim) coeff
                      + (if sqrt distSq < avoidance sim
                         then - (avoidance sim / sqrt distSq - 1) * 0.5 else 0)))))
       \<and> (diff = (0, 0) \<longrightarrow>
            interact sim particles matrix colourIdx idx myColour p acc j = Inr acc)
       \<and> (0 < r sim \<and> sqrt distSq / r sim \<ge> 1 \<longrightarrow>
            interact sim particles matrix colourIdx idx myColour p acc j = Inr acc)"
proof -
  have far: "\<not> distSq < r sim * r sim" if "0 < r sim" "sqrt distSq / r sim \<ge> 1"
    using sqrt_ge_radius [OF that] dot_self_nonneg assms(4) by simp
  have zero: "distSq = 0" if "diff = (0, 0)"
    using that assms(4) by (simp add: dot_def)
  show ?thesis
    using assms far zero by (auto simp: interact_def Let_def)
qed

theorem interact_cutoff_witness:
  "interact defaultOptions [\<lparr>pos = ((0, 0), (0, 0))\<rparr>, \<lparr>pos = ((3, 4), (0, 0))\<rparr>] [1 / 2] [0, 0] 0 0
      (0, 0) (0, 0) 1 = Inr (1 / 35, 4 / 105)
   \<and> interact defaultOptions [\<lparr>pos = ((0, 0), (0, 0))\<rparr>, \<lparr>pos = ((0, 0), (0, 0))\<rparr>] [1 / 2] [0, 0] 0 0
      (0, 0) (0, 0) 1 = Inr (0, 0)"
proof -
  let ?p = "\<lparr>pos = ((0, 0), (0, 0))\<rparr>" and ?q = "\<lparr>pos = ((3, 4), (0, 0))\<rparr>"
  have s25: "sqrt 25 = 5" by (rule real_sqrt_unique) simp_all
  have h1: "u32_of_i32 1 \<noteq> 0" by (simp add: u32_of_i32_def)
  have h2: "load [?p, ?q] 1 = Inr ?q" by (simp add: load_def)
  have h3: "(3, 4) = wrap_diff defaultOptions (vsub (xy ?q) (0, 0))"
    by (simp add: wrap_diff_def vsub_def xy_def defaultOptions_def)
  have h4: "25 = dot (3, 4) (3, 4)" by (simp add: dot_def)
  have g: "0 < (25::real) \<and> 25 < r defaultOptions * r defaultOptions
            \<and> load [0, 0] 1 = Inr (0::nat)
            \<and> load [1 / 2] (int (u32 (0 * colours defaultOptions + 0))) = Inr (1 / 2 :: real)"
    by (simp add: defaultOptions_def load_def u32_def)
  have a: "interact defaultOptions [?p, ?q] [1 / 2] [0, 0] 0 0 (0, 0) (0, 0) 1 = Inr (1 / 35, 4 / 105)"
    using interact_cutoff [OF h1 h2 h3 h4, where colourIdx = "[0, 0]" and c = 0
        and matrix = "[1 / 2]" and myColour = 0 and coeff = "1 / 2" and acc = "(0, 0)"] g
    by (simp add: s25 defaultOptions_def forceCurve_def vadd_def vscale_def vdiv_def)
  have k2: "load [?p, ?p] 1 = Inr ?p" by (simp add: load_def)
  have k3: "(0, 0) = wrap_diff defaultOptions (vsub (xy ?p) (0, 0))"
    by (simp add: wrap_diff_def vsub_def xy_def defaultOptions_def)
  have k4: "0 = dot (0, 0) (0, 0)" by (simp add: dot_def)
  have b: "interact defaultOptions [?p, ?p] [1 / 2] [0, 0] 0 0 (0, 0) (0, 0) 1 = Inr (0, 0)"
    using interact_cutoff [OF h1 k2 k3 k4, where colourIdx = "[0, 0]" and c = 0
        and matrix = "[1 / 2]" and myColour = 0 and coeff = "1 / 2" and acc = "(0, 0)"]
    by simp
  from a b show ?thesis by simp
qed

section \<open>Integration and border handling\<close>







text \<open>
  C6.  In reflect mode (\<open>border\<close> other than 1), with a world half-size that is not
  negative: an integrated x position above \<open>worldSize\<close> with positive x velocity is
  stored as \<open>worldSize\<close> with x velocity \<open>-|vel.x|\<close>, which is negative; an x position
  below \<open>-worldSize\<close> with negative x velocity is stored as \<open>-worldSize\<close> with x
  velocity \<open>|vel.x|\<close>; and the same on the y axis.
\<close>

theorem reflect_sign_correction:
  assumes "border sim \<noteq> 1" and "0 \<le> worldSize sim"
  shows "(fst (fst pv) > worldSize sim \<and> fst (snd pv) > 0 \<longrightarrow>
            fst (fst (border_handling sim pv)) = worldSize sim \<and>
            fst (snd (border_handling sim pv)) = - \<bar>fst (snd pv)\<bar> \<and>
            fst (snd (border_handling sim pv)) < 0)
       \<and> (fst (fst pv) < - worldSize sim \<and> fst (snd pv) < 0 \<longrightarrow>
            fst (fst (border_handling sim pv)) = - worldSize sim \<and>
            fst (snd (border_handling sim pv)) = \<bar>fst (snd pv)\<bar> \<and>
            fst (snd (border_handling sim pv)) > 0)
       \<and> (snd (fst pv) > worldSize sim \<and> snd (snd pv) > 0 \<longrightarrow>
            snd (fst (border_handling sim pv)) = worldSize sim \<and>
            snd (snd (border_handling sim pv)) = - \<bar>snd (snd pv)\<bar> \<and>
            snd (snd (border_handling sim pv)) < 0)
       \<and> (snd (fst pv) < - worldSize sim \<and> snd (snd pv) < 0 \<longrightarrow>
            snd (fst (border_handling sim pv)) = - worldSize sim \<and>
            snd (snd (border_handling sim pv)) = \<bar>snd (snd pv)\<bar> \<and>
            snd (snd (border_handling sim pv)) > 0)"
  using assms by (auto simp: border_handling_def Let_def split: if_splits prod.splits)

theorem reflect_sign_correction_witness:
  "border_handling (defaultOptions\<lparr>border := 0\<rparr>) ((7, - 7), (2, - 3)) = ((6, - 6), (- 2, 3))
   \<and> border_handling (defaultOptions\<lparr>border := 0\<rparr>) ((- 7, 7), (- 2, 3)) = ((- 6, 6), (2, - 3))"
proof -
  have h: "border (defaultOptions\<lparr>border := 0\<rparr>) \<noteq> 1" "0 \<le> worldSize (defaultOptions\<lparr>border := 0\<rparr>)"
    by (simp_all add: defaultOptions_def)
  have w: "worldSize (defaultOptions\<lparr>border := 0\<rparr>) = 6" by (simp add: defaultOptions_def)
  have "border_handling (defaultOptions\<lparr>border := 0\<rparr>) ((7, - 7), (2, - 3)) = ((6, - 6), (- 2, 3))"
    using reflect_sign_correction [OF h, of "((7, - 7), (2, - 3))"] unfolding w
    by (simp add: prod_eq_iff)
  moreover
  have "border_handling (defaultOptions\<lparr>border := 0\<rparr>) ((- 7, 7), (- 2, 3)) = ((- 6, 6), (2, - 3))"
    using reflect_sign_correction [OF h, of "((- 7, 7), (- 2, 3))"] unfolding w
    by (simp add: prod_eq_iff)
  ultimately show ?thesis by simp
qed

text \<open>
  C5, as the code has it.  In wrap mode, with a world half-size that is not negative, a
  particle at exactly \<open>worldSize\<close> on an axis, with zero velocity and a zero
  accumulator, is stored at exactly \<open>worldSize\<close> on that axis: both wrap tests are
  strict, so it stays in the closed interval \<open>[-worldSize, worldSize]\<close> and not in the
  half-open one.
\<close>

theorem wrap_keeps_half:
  assumes "border sim = 1" and "0 \<le> worldSize sim"
  shows "(fst p = worldSize sim \<longrightarrow>
            fst (fst (border_handling sim (integrate sim p (0, 0) (0, 0)))) = worldSize sim)
       \<and> (snd p = worldSize sim \<longrightarrow>
            snd (fst (border_handling sim (integrate sim p (0, 0) (0, 0)))) = worldSize sim)"
  using assms by (auto simp: border_handling_def integrate_def vadd_def vscale_def Let_def)

theorem wrap_keeps_half_witness:
  "fst (border_handling defaultOptions (integrate defaultOptions (6, 6) (0, 0) (0, 0))) = (6, 6)"
proof -
  have h: "border defaultOptions = 1" "0 \<le> worldSize defaultOptions"
    by (simp_all add: defaultOptions_def)
  have w: "worldSize defaultOptions = 6" by (simp add: defaultOptions_def)
  show ?thesis
    using wrap_keeps_half [OF h, of "(6, 6)"] unfolding w by (simp add: prod_eq_iff)
qed

text \<open>
  The claim as stated fails on one particle at \<open>(6, 0)\<close> with zero velocity under the
  default parameters (\<open>worldSize = 6\<close>, wrap mode): the Grid Builder puts it in cell 0,
  and the Force Integrator stores it at \<open>(6, 0)\<close>, which is not below 6.
\<close>

theorem wrap_half_open_counterexample:
  "construct_run defaultOptions [\<lparr>pos = ((6, 0), (0, 0))\<rparr>] [Exchange 0, Store 0]
       ([- 1, - 1, - 1, - 1], [0], Map.empty)
     = Inr ([0, - 1, - 1, - 1], [- 1], Map.empty)
   \<and> \<not> (\<forall>q. sim_main defaultOptions [\<lparr>pos = ((6, 0), (0, 0))\<rparr>] [] [0, - 1, - 1, - 1] [- 1] [0] 0
               = Some (Inr (Some q)) \<longrightarrow>
            - worldSize defaultOptions \<le> fst (xy q) \<and> fst (xy q) < worldSize defaultOptions)"
proof -
  have c: "construct_run defaultOptions [\<lparr>pos = ((6, 0), (0, 0))\<rparr>] [Exchange 0, Store 0]
       ([- 1, - 1, - 1, - 1], [0], Map.empty)
     = Inr ([0, - 1, - 1, - 1], [- 1], Map.empty)"
    by (simp add: construct_step_def particle_cell_def defaultOptions_def Let_def gridDim_def
        cellCoord_def cellIndex_def clamp_def u32_def u32_of_f32_def i32_of_u32_def xy_def)
  have m: "sim_main defaultOptions [\<lparr>pos = ((6, 0), (0, 0))\<rparr>] [] [0, - 1, - 1, - 1] [- 1] [0] 0
     = Some (Inr (Some \<lparr>pos = ((6, 0), (0, 0))\<rparr>))"
  proof -
    let ?body = "interact defaultOptions [\<lparr>pos = ((6, 0), (0, 0))\<rparr>] [] [0] 0 0 (6, 0)"
    have e: "walk ?body [- 1] (0, 0) (- 1) = Some (Inr (0, 0))"
      by (rule walk_end) simp
    have "walk ?body [- 1] (0, 0) 0 = walk ?body [- 1] (0, 0) (- 1)"
      by (rule walk_step) (simp_all add: interact_def u32_of_i32_def load_def)
    with e have w: "walk ?body [- 1] (0, 0) 0 = Some (Inr (0, 0))" by simp
    have g: "i32_of_u32 (gridDim defaultOptions) = 2"
      by (simp add: gridDim_def defaultOptions_def u32_def u32_of_f32_def i32_of_u32_def)
    have cc: "sim_cellCoord 6 defaultOptions = 0" "sim_cellCoord 0 defaultOptions = 0"
      by (simp_all add: sim_cellCoord_def defaultOptions_def clamp_def i32_of_f32_def)
    have n: "neighbourhood ?body [0, - 1, - 1, - 1] [- 1] 2 0 0 (0, 0) offsets = Some (Inr (0, 0))"
      by (simp add: offsets_def i32_def sim_cellIndex_def load_def w e)
    have b: "border_handling defaultOptions (integrate defaultOptions (6, 0) (0, 0) (0, 0))
               = ((6, 0), (0, 0))"
      by (simp add: integrate_def border_handling_def defaultOptions_def vadd_def vscale_def)
    show ?thesis
      by (simp add: sim_main_def load_def xy_def zw_def g cc n b)
  qed
  have "\<not> (- worldSize defaultOptions \<le> fst (xy \<lparr>pos = ((6, 0), (0, 0))\<rparr>)
            \<and> fst (xy \<lparr>pos = ((6, 0), (0, 0))\<rparr>) < worldSize defaultOptions)"
    by (simp add: defaultOptions_def xy_def)
  with m have "\<not> (\<forall>q. sim_main defaultOptions [\<lparr>pos = ((6, 0), (0, 0))\<rparr>] [] [0, - 1, - 1, - 1] [- 1] [0] 0
               = Some (Inr (Some q)) \<longrightarrow>
            - worldSize defaultOptions \<le> fst (xy q) \<and> fst (xy q) < worldSize defaultOptions)"
    by blast
  with c show ?thesis by simp
qed

section \<open>Cell coordinates\<close>

lemma clamp_bounds:
  assumes "0 \<le> h"
  shows "- h \<le> clamp v (- h) h" and "clamp v (- h) h \<le> h"
  using assms by (auto simp: clamp_def)

lemma norm_bounds:
  assumes "0 < r sim" and "0 < worldSize sim"
  shows "0 \<le> (clamp v (- worldSize sim) (worldSize sim) + worldSize sim) / r sim"
    and "(clamp v (- worldSize sim) (worldSize sim) + worldSize sim) / r sim
           \<le> worldSize sim * 2 / r sim"
proof -
  have h: "0 \<le> worldSize sim" using assms by simp
  show "0 \<le> (clamp v (- worldSize sim) (worldSize sim) + worldSize sim) / r sim"
    using clamp_bounds(1) [OF h, of v] assms by simp
  show "(clamp v (- worldSize sim) (worldSize sim) + worldSize sim) / r sim
           \<le> worldSize sim * 2 / r sim"
    using clamp_bounds(2) [OF h, of v] assms by (simp add: divide_right_mono)
qed

lemma cellCoord_exact:
  assumes "0 < r sim" and "0 < worldSize sim" and "worldSize sim * 2 / r sim < 4294967296"
  shows "int (cellCoord v sim) = \<lfloor>(clamp v (- worldSize sim) (worldSize sim) + worldSize sim) / r sim\<rfloor>"
proof -
  let ?n = "(clamp v (- worldSize sim) (worldSize sim) + worldSize sim) / r sim"
  have "0 \<le> ?n" "?n < 4294967296"
    using norm_bounds [OF assms(1,2), of v] assms(3) by simp_all
  then have "0 \<le> \<lfloor>?n\<rfloor>" "\<lfloor>?n\<rfloor> < 4294967296"
    by (simp_all add: floor_less_iff)
  then have "nat \<lfloor>?n\<rfloor> \<le> 4294967295" "int (nat \<lfloor>?n\<rfloor>) = \<lfloor>?n\<rfloor>"
    by linarith+
  then show ?thesis
    by (simp add: cellCoord_def Let_def u32_of_f32_def min_absorb1)
qed


lemma gridDim_exact:
  assumes "0 < r sim" and "0 < worldSize sim" and "worldSize sim * 2 / r sim \<le> 4294967294"
  shows "int (gridDim sim) = \<lceil>worldSize sim * 2 / r sim\<rceil> + 1"
proof -
  let ?x = "worldSize sim * 2 / r sim"
  have "0 < ?x" using assms by simp
  then have "0 \<le> \<lceil>?x\<rceil>" by linarith
  moreover have "\<lceil>?x\<rceil> \<le> 4294967294" using assms(3) by (simp add: ceiling_le_iff)
  ultimately have "nat \<lceil>?x\<rceil> \<le> 4294967295" "Suc (nat \<lceil>?x\<rceil>) < 4294967296"
    "int (nat \<lceil>?x\<rceil>) = \<lceil>?x\<rceil>"
    by linarith+
  then show ?thesis
    by (simp add: gridDim_def u32_def u32_of_f32_def min_absorb1)
qed

lemma cellCoord_less_gridDim:
  assumes "0 < r sim" and "0 < worldSize sim" and "worldSize sim * 2 / r sim \<le> 4294967294"
  shows "cellCoord v sim < gridDim sim"
proof -
  let ?x = "worldSize sim * 2 / r sim"
  let ?n = "(clamp v (- worldSize sim) (worldSize sim) + worldSize sim) / r sim"
  have lt: "?x < 4294967296" using assms(3) by simp
  have "\<lfloor>?n\<rfloor> \<le> \<lfloor>?x\<rfloor>" using norm_bounds(2) [OF assms(1,2), of v] by (rule floor_mono)
  also have "\<dots> \<le> \<lceil>?x\<rceil>" by (rule floor_le_ceiling)
  finally have "int (cellCoord v sim) < int (gridDim sim)"
    using cellCoord_exact [OF assms(1,2) lt, of v] gridDim_exact [OF assms] by simp
  then show ?thesis by simp
qed

lemma cellIndex_less:
  assumes "cx < gdim" and "cy < gdim"
  shows "cellIndex cx cy gdim < gdim * gdim"
proof -
  have "cy * gdim + cx < Suc cy * gdim" using assms(1) by simp
  also have "\<dots> \<le> gdim * gdim" using assms(2) by (simp add: Suc_leI mult_le_mono1 del: mult_Suc)
  finally have "cy * gdim + cx < gdim * gdim" .
  moreover have "cellIndex cx cy gdim \<le> cy * gdim + cx" by (simp add: cellIndex_def u32_def)
  ultimately show ?thesis by simp
qed

lemma particle_cell_less:
  assumes "0 < r sim" and "0 < worldSize sim" and "worldSize sim * 2 / r sim \<le> 4294967294"
  shows "particle_cell sim p < gridDim sim * gridDim sim"
  unfolding particle_cell_def Let_def
  by (intro cellIndex_less cellCoord_less_gridDim assms)







section \<open>Grid completeness\<close>

lemma chain_update:
  assumes "i0 \<notin> set xs"
  shows "chain (linked[i0 := v]) j xs = chain linked j xs"
  using assms by (induction xs arbitrary: j) auto

lemma walk_chain:
  assumes "chain linked j xs"
  shows "walk body linked acc j = Some (run_body body acc xs)"
  using assms
proof (induction xs arbitrary: acc j)
  case Nil
  then show ?case by (simp add: walk_end)
next
  case (Cons i xs)
  then have j: "j = int i" and i: "i < length linked" and c: "chain linked (linked ! i) xs"
    by simp_all
  show ?case
  proof (cases "body acc (int i)")
    case (Inl e)
    then show ?thesis unfolding j by (subst walk.simps) simp
  next
    case (Inr acc')
    have "walk body linked acc (int i) = walk body linked acc' (linked ! i)"
      by (rule walk_step) (simp_all add: Inr load_def i)
    then show ?thesis unfolding j using Cons.IH [OF c] Inr by simp
  qed
qed

lemma run_body_visit: "run_body visit acc xs = Inr (acc @ xs)"
  by (induction xs arbitrary: acc) (simp_all add: visit_def)

lemma cell_list_snoc:
  "cell_list sim particles (seen @ [idx]) c =
     (if idx < length particles \<and> particle_cell sim (particles ! idx) = c
      then idx # cell_list sim particles seen c else cell_list sim particles seen c)"
  by (simp add: cell_list_def)

lemma set_cell_list: "set (cell_list sim particles ord c) \<subseteq> set ord"
  by (auto simp: cell_list_def)

lemma construct_main_inv:
  assumes inv: "grid_inv sim particles seen heads linked"
    and fresh: "idx \<notin> set seen"
    and ok: "idx < length particles \<Longrightarrow>
               particle_cell sim (particles ! idx) < length heads \<and> idx < length linked
               \<and> idx < 2147483648"
  shows "\<exists>heads' linked'.
           construct_main sim particles idx (heads, linked) = Inr (heads', linked')
           \<and> grid_inv sim particles (seen @ [idx]) heads' linked'
           \<and> length heads' = length heads \<and> length linked' = length linked"
proof (cases "idx < length particles")
  case False
  then show ?thesis
    using inv by (simp add: construct_main_def grid_inv_def cell_list_snoc)
next
  case True
  let ?c0 = "particle_cell sim (particles ! idx)"
  from ok [OF True] have c0: "?c0 < length heads" and il: "idx < length linked"
    and i31: "idx < 2147483648" by simp_all
  let ?heads = "heads[?c0 := int idx]" and ?linked = "linked[idx := heads ! ?c0]"
  have run: "construct_main sim particles idx (heads, linked) = Inr (?heads, ?linked)"
    using True c0 il i31 by (simp add: construct_main_def Let_def i32_of_u32_def)
  have notin: "idx \<notin> set (cell_list sim particles seen c)" for c
    using fresh set_cell_list by blast
  have "chain ?linked (?heads ! c) (cell_list sim particles (seen @ [idx]) c)"
    if c: "c < length heads" for c
  proof (cases "c = ?c0")
    case True
    have "chain linked (heads ! ?c0) (cell_list sim particles seen ?c0)"
      using inv c0 by (simp add: grid_inv_def)
    then have "chain ?linked (heads ! ?c0) (cell_list sim particles seen ?c0)"
      by (simp add: chain_update [OF notin])
    then show ?thesis
      using True \<open>idx < length particles\<close> c0 il by (simp add: cell_list_snoc)
  next
    case False
    have "chain linked (heads ! c) (cell_list sim particles seen c)"
      using inv c by (simp add: grid_inv_def)
    then have "chain ?linked (heads ! c) (cell_list sim particles seen c)"
      by (simp add: chain_update [OF notin])
    then show ?thesis
      using False by (simp add: cell_list_snoc)
  qed
  then have "grid_inv sim particles (seen @ [idx]) ?heads ?linked"
    by (simp add: grid_inv_def)
  with run show ?thesis by simp
qed

lemma construct_dispatch_inv:
  assumes "grid_inv sim particles seen heads linked"
    and "distinct (seen @ ord)"
    and "\<forall>i \<in> set ord. i < length particles \<longrightarrow>
           particle_cell sim (particles ! i) < length heads \<and> i < length linked \<and> i < 2147483648"
  shows "\<exists>heads' linked'.
           construct_dispatch sim particles ord (heads, linked) = Inr (heads', linked')
           \<and> grid_inv sim particles (seen @ ord) heads' linked'
           \<and> length heads' = length heads \<and> length linked' = length linked"
  using assms
proof (induction ord arbitrary: seen heads linked)
  case Nil
  then show ?case by simp
next
  case (Cons idx ord)
  have fresh: "idx \<notin> set seen" using Cons.prems(2) by simp
  have ok: "idx < length particles \<Longrightarrow>
               particle_cell sim (particles ! idx) < length heads \<and> idx < length linked
               \<and> idx < 2147483648"
    using Cons.prems(3) by simp
  from construct_main_inv [OF Cons.prems(1) fresh ok]
  obtain h1 l1 where m: "construct_main sim particles idx (heads, linked) = Inr (h1, l1)"
    and inv1: "grid_inv sim particles (seen @ [idx]) h1 l1"
    and len: "length h1 = length heads" "length l1 = length linked"
    by blast
  have d: "distinct ((seen @ [idx]) @ ord)" using Cons.prems(2) by simp
  have b: "\<forall>i \<in> set ord. i < length particles \<longrightarrow>
           particle_cell sim (particles ! i) < length h1 \<and> i < length l1 \<and> i < 2147483648"
    using Cons.prems(3) len by simp
  from Cons.IH [OF inv1 d b] m len show ?case by simp
qed


lemma scheduled_distinct:
  "scheduled started pending evs \<Longrightarrow> distinct started \<Longrightarrow> distinct (rev started @ exchanges evs)"
proof (induction started pending evs rule: scheduled.induct)
  case (1 started pending)
  then show ?case by simp
next
  case (2 started pending i evs)
  then show ?case by simp
next
  case (3 started pending i evs)
  then show ?case by simp
qed

lemma construct_run_refines:
  assumes "scheduled started pending evs"
    and "fine_rel pending st hl"
    and "\<forall>i \<in> set (exchanges evs). i < length particles \<longrightarrow>
           particle_cell sim (particles ! i) < length (fst hl) \<and> i < length (snd hl)"
  shows "\<exists>heads linked.
           construct_run sim particles evs st = Inr (heads, linked, Map.empty)
         \<and> construct_dispatch sim particles (exchanges evs) hl = Inr (heads, linked)"
  using assms
proof (induction started pending evs arbitrary: st hl rule: scheduled.induct)
  case (1 started pending)
  obtain h l prev where st: "st = (h, l, prev)" by (cases st)
  obtain H L where hl: "hl = (H, L)" by (cases hl)
  from 1 have p: "pending = []" by simp
  from 1(2) have e: "prev = Map.empty" unfolding st hl p by auto
  from 1(2) have "h = H" "length l = length L" "\<forall>i < length L. l ! i = L ! i"
    unfolding st hl e by simp_all
  then have "h = H" "l = L" by (simp_all add: nth_equalityI)
  then show ?case by (simp add: st hl e)
next
  case (2 started pending i evs)
  obtain h l prev where st: "st = (h, l, prev)" by (cases st)
  obtain H L where hl: "hl = (H, L)" by (cases hl)
  from "2.prems"(1) have sch: "scheduled (i # started) (i # pending) evs" by simp
  from "2.prems"(2) have hH: "h = H" and len: "length l = length L"
    and dom: "\<forall>k. prev k \<noteq> None \<longrightarrow> k \<in> set pending \<and> k < length L"
    and rel: "\<forall>k < length L. (case prev k of Some v \<Rightarrow> L ! k = v | None \<Rightarrow> l ! k = L ! k)"
    unfolding st hl by simp_all
  show ?case
  proof (cases "i < length particles")
    case False
    have s: "construct_step sim particles (Exchange i) st = Inr st"
      using False by (simp add: construct_step_def)
    have m: "construct_main sim particles i hl = Inr hl"
      using False by (simp add: construct_main_def hl)
    have r: "fine_rel (i # pending) st hl"
      using "2.prems"(2) unfolding st hl by auto
    have b: "\<forall>k \<in> set (exchanges evs). k < length particles \<longrightarrow>
           particle_cell sim (particles ! k) < length (fst hl) \<and> k < length (snd hl)"
      using "2.prems"(3) by simp
    from "2.IH" [OF sch r b] s m show ?thesis by simp
  next
    case True
    let ?c = "particle_cell sim (particles ! i)"
    from "2.prems"(3) True have c: "?c < length H" and il: "i < length L"
      unfolding hl by simp_all
    let ?st = "(h[?c := i32_of_u32 i], l, prev(i \<mapsto> h ! ?c))"
    let ?hl = "(H[?c := i32_of_u32 i], L[i := H ! ?c])"
    have s: "construct_step sim particles (Exchange i) st = Inr ?st"
      using True c hH by (simp add: construct_step_def st Let_def)
    have m: "construct_main sim particles i hl = Inr ?hl"
      using True c il by (simp add: construct_main_def hl Let_def)
    have r: "fine_rel (i # pending) ?st ?hl"
      using hH len dom rel il
      by (auto simp: nth_list_update split: option.splits)
    have b: "\<forall>k \<in> set (exchanges evs). k < length particles \<longrightarrow>
           particle_cell sim (particles ! k) < length (fst ?hl) \<and> k < length (snd ?hl)"
      using "2.prems"(3) unfolding hl by simp
    from "2.IH" [OF sch r b] s m show ?thesis by simp
  qed
next
  case (3 started pending i evs)
  obtain h l prev where st: "st = (h, l, prev)" by (cases st)
  obtain H L where hl: "hl = (H, L)" by (cases hl)
  from "3.prems"(1) have sch: "scheduled started (removeAll i pending) evs" by simp
  from "3.prems"(2) have hH: "h = H" and len: "length l = length L"
    and dom: "\<forall>k. prev k \<noteq> None \<longrightarrow> k \<in> set pending \<and> k < length L"
    and rel: "\<forall>k < length L. (case prev k of Some v \<Rightarrow> L ! k = v | None \<Rightarrow> l ! k = L ! k)"
    unfolding st hl by simp_all
  have b: "\<forall>k \<in> set (exchanges evs). k < length particles \<longrightarrow>
           particle_cell sim (particles ! k) < length (fst hl) \<and> k < length (snd hl)"
    using "3.prems"(3) by simp
  show ?case
  proof (cases "prev i")
    case None
    have s: "construct_step sim particles (Store i) st = Inr st"
      using None by (simp add: construct_step_def st)
    have r: "fine_rel (removeAll i pending) st hl"
      unfolding st hl using hH len dom rel None by auto
    from "3.IH" [OF sch r b] s show ?thesis by simp
  next
    case (Some v)
    show ?thesis
    proof (cases "i < length l")
      case True
      let ?st = "(h, l[i := v], prev(i := None))"
      have s: "construct_step sim particles (Store i) st = Inr ?st"
        using Some True by (simp add: construct_step_def st)
      have "L ! i = v" using rel Some True len by (auto split: option.splits)
      then have r: "fine_rel (removeAll i pending) ?st hl"
        unfolding hl using hH len dom rel True
        by (auto simp: nth_list_update split: option.splits)
      from "3.IH" [OF sch r b] s show ?thesis by simp
    next
      case False
      then show ?thesis using dom Some len by auto
    qed
  qed
qed

lemma grid_inv_init: "grid_inv sim particles [] (replicate ncells (- 1)) linked0"
  by (simp add: grid_inv_def cell_list_def)

lemma traverse_chain:
  assumes "c < length heads" and "chain linked (heads ! c) xs"
  shows "traverse heads linked c = Some (Inr xs)"
  using assms walk_chain [OF assms(2), of visit "[]"]
  by (simp add: traverse_def load_def run_body_visit)

lemma cell_list_union:
  assumes "{..<length particles} \<subseteq> set ord"
    and "\<forall>p \<in> set particles. particle_cell sim p < ncells"
  shows "(\<Union>c<ncells. set (cell_list sim particles ord c)) = {..<length particles}"
  using assms by (auto simp: cell_list_def)

lemma cell_list_distinct: "distinct ord \<Longrightarrow> distinct (cell_list sim particles ord c)"
  by (simp add: cell_list_def)

lemma cell_list_disjoint:
  "c \<noteq> c' \<Longrightarrow> set (cell_list sim particles ord c) \<inter> set (cell_list sim particles ord c') = {}"
  by (auto simp: cell_list_def)

lemma construct_run_grid:
  assumes sch: "scheduled [] [] evs"
    and len: "length particles \<le> length linked0" "length particles \<le> 2147483648"
    and cells: "\<forall>p \<in> set particles. particle_cell sim p < ncells"
  shows "\<exists>heads linked.
           construct_run sim particles evs (replicate ncells (- 1), linked0, Map.empty)
             = Inr (heads, linked, Map.empty)
         \<and> length heads = ncells
         \<and> grid_inv sim particles (exchanges evs) heads linked"
proof -
  have d: "distinct ([] @ exchanges evs)" using scheduled_distinct [OF sch] by simp
  have b: "\<forall>i \<in> set (exchanges evs). i < length particles \<longrightarrow>
             particle_cell sim (particles ! i) < length (replicate ncells (- 1 :: int))
             \<and> i < length linked0 \<and> i < 2147483648"
    using len cells by auto
  from construct_dispatch_inv [OF grid_inv_init d b]
  obtain heads linked
    where run: "construct_dispatch sim particles (exchanges evs) (replicate ncells (- 1), linked0)
                  = Inr (heads, linked)"
      and inv: "grid_inv sim particles (exchanges evs) heads linked"
      and n: "length heads = ncells"
    by auto
  have rel: "fine_rel [] (replicate ncells (- 1), linked0, Map.empty) (replicate ncells (- 1), linked0)"
    by simp
  have b': "\<forall>i \<in> set (exchanges evs). i < length particles \<longrightarrow>
             particle_cell sim (particles ! i) < length (fst (replicate ncells (- 1 :: int), linked0))
             \<and> i < length (snd (replicate ncells (- 1 :: int), linked0))"
    using b by simp
  from construct_run_refines [OF sch rel b'] run
  have "construct_run sim particles evs (replicate ncells (- 1), linked0, Map.empty)
          = Inr (heads, linked, Map.empty)"
    by auto
  with inv n show ?thesis by blast
qed

text \<open>
  C2, as the code has it.  Let the radius and the world half-size be positive, let
  \<open>evs\<close> be an interleaving of the atomic operations of invocations that include
  every particle index, let there be at most \<open>2 ^ 31\<close> particles and a slot of
  \<open>linked\<close> for each, and let the flat cell index of every particle lie inside the
  head table of \<open>ncells\<close> entries.  Then the Grid Builder, started on a head table
  filled with \<open>-1\<close>, ends without a dynamic error; following \<open>heads[c]\<close> through
  \<open>linked\<close> to the sentinel ends for every cell \<open>c\<close> and yields the particles of
  that cell, latest exchange first; the union of these lists is \<open>{0..<N}\<close>; no list
  repeats an index and no two lists share one.
\<close>

theorem grid_completeness:
  assumes "0 < r sim" and "0 < worldSize sim"
    and "scheduled [] [] evs" and "{..<length particles} \<subseteq> set (exchanges evs)"
    and "length particles \<le> length linked0" and "length particles \<le> 2147483648"
    and "\<forall>p \<in> set particles. particle_cell sim p < ncells"
  shows "\<exists>heads linked.
           construct_run sim particles evs (replicate ncells (- 1), linked0, Map.empty)
             = Inr (heads, linked, Map.empty)
         \<and> (\<forall>c<ncells. traverse heads linked c
                          = Some (Inr (cell_list sim particles (exchanges evs) c)))
         \<and> (\<Union>c<ncells. set (cell_list sim particles (exchanges evs) c)) = {..<length particles}
         \<and> (\<forall>c<ncells. distinct (cell_list sim particles (exchanges evs) c))
         \<and> (\<forall>c<ncells. \<forall>c'<ncells. c \<noteq> c' \<longrightarrow>
               set (cell_list sim particles (exchanges evs) c)
                 \<inter> set (cell_list sim particles (exchanges evs) c') = {})"
proof -
  let ?ord = "exchanges evs"
  from construct_run_grid [OF assms(3,5,6,7)]
  obtain heads linked
    where run: "construct_run sim particles evs (replicate ncells (- 1), linked0, Map.empty)
                  = Inr (heads, linked, Map.empty)"
      and len: "length heads = ncells"
      and inv: "grid_inv sim particles ?ord heads linked"
    by blast
  have d: "distinct ?ord" using scheduled_distinct [OF assms(3)] by simp
  have t: "\<forall>c<ncells. traverse heads linked c = Some (Inr (cell_list sim particles ?ord c))"
    using inv len by (auto simp: grid_inv_def intro: traverse_chain)
  have u: "(\<Union>c<ncells. set (cell_list sim particles ?ord c)) = {..<length particles}"
    by (rule cell_list_union [OF assms(4,7)])
  have dd: "\<forall>c<ncells. distinct (cell_list sim particles ?ord c)"
    using cell_list_distinct [OF d] by simp
  have dj: "\<forall>c<ncells. \<forall>c'<ncells. c \<noteq> c' \<longrightarrow>
               set (cell_list sim particles ?ord c) \<inter> set (cell_list sim particles ?ord c') = {}"
    using cell_list_disjoint by simp
  show ?thesis
    by (intro exI conjI) (rule run, rule t, rule u, rule dd, rule dj)
qed

theorem grid_completeness_witness:
  "\<exists>heads linked.
     construct_run (defaultOptions\<lparr>r := 4\<rparr>)
       [\<lparr>pos = ((- 6, - 6), (0, 0))\<rparr>, \<lparr>pos = ((6, 6), (0, 0))\<rparr>, \<lparr>pos = ((- 6, - 6), (0, 0))\<rparr>]
       [Exchange 2, Exchange 0, Store 0, Exchange 1, Store 2, Store 1]
       (replicate 16 (- 1), [0, 0, 0], Map.empty) = Inr (heads, linked, Map.empty)
     \<and> traverse heads linked 0 = Some (Inr [0, 2])
     \<and> traverse heads linked 15 = Some (Inr [1])
     \<and> traverse heads linked 1 = Some (Inr [])"
proof -
  let ?sim = "defaultOptions\<lparr>r := 4\<rparr>"
  let ?P = "[\<lparr>pos = ((- 6, - 6), (0, 0))\<rparr>, \<lparr>pos = ((6, 6), (0, 0))\<rparr>, \<lparr>pos = ((- 6, - 6), (0, 0))\<rparr>]"
  let ?evs = "[Exchange 2, Exchange 0, Store 0, Exchange 1, Store 2, Store 1]"
  have g: "gridDim ?sim = 4"
    by (simp add: gridDim_def defaultOptions_def u32_def u32_of_f32_def)
  have cc: "cellCoord (- 6) ?sim = 0" "cellCoord 6 ?sim = 3"
    by (simp_all add: cellCoord_def defaultOptions_def clamp_def u32_of_f32_def)
  have pc: "particle_cell ?sim \<lparr>pos = ((- 6, - 6), (0, 0))\<rparr> = 0"
    "particle_cell ?sim \<lparr>pos = ((6, 6), (0, 0))\<rparr> = 15"
    by (simp_all add: particle_cell_def xy_def g cc cellIndex_def u32_def)
  have h: "0 < r ?sim" "0 < worldSize ?sim" by (simp_all add: defaultOptions_def)
  have ex: "exchanges ?evs = [2, 0, 1]" by simp
  have o: "scheduled [] [] ?evs" "{..<length ?P} \<subseteq> set (exchanges ?evs)"
    by (auto simp: lessThan_def)
  have l: "length ?P \<le> length [0, 0, 0 :: int]" "length ?P \<le> 2147483648" by simp_all
  have c: "\<forall>p \<in> set ?P. particle_cell ?sim p < 16" by (simp add: pc)
  have cl: "cell_list ?sim ?P [2, 0, 1] 0 = [0, 2]" "cell_list ?sim ?P [2, 0, 1] 15 = [1]"
    "cell_list ?sim ?P [2, 0, 1] 1 = []"
    by (simp_all add: cell_list_def pc)
  from grid_completeness [OF h o l c]
  obtain heads linked
    where run: "construct_run ?sim ?P ?evs (replicate 16 (- 1), [0, 0, 0], Map.empty)
                  = Inr (heads, linked, Map.empty)"
      and tr: "\<forall>c<16. traverse heads linked c = Some (Inr (cell_list ?sim ?P (exchanges ?evs) c))"
    by blast
  have "traverse heads linked 0 = Some (Inr [0, 2])" "traverse heads linked 15 = Some (Inr [1])"
    "traverse heads linked 1 = Some (Inr [])"
    using tr cl unfolding ex by simp_all
  with run show ?thesis by blast
qed

text \<open>
  The claim as stated fails when the grid outgrows the head table of
  \<open>createAccelerationBuffers\<close> (2704 entries): with the default parameters and
  \<open>r = 1 / 8\<close> the grid is 97 cells wide, a particle at \<open>(6, 6)\<close> has the flat cell
  index 9408, and its exchange on \<open>heads\<close> is out of bounds.
\<close>

theorem grid_completeness_counterexample:
  "0 < r (defaultOptions\<lparr>r := 1 / 8\<rparr>) \<and> 0 < worldSize (defaultOptions\<lparr>r := 1 / 8\<rparr>)
   \<and> construct_run (defaultOptions\<lparr>r := 1 / 8\<rparr>) [\<lparr>pos = ((6, 6), (0, 0))\<rparr>]
        [Exchange 0, Store 0] (headsInit, [0], Map.empty) = Inl OutOfBounds"
proof -
  let ?sim = "defaultOptions\<lparr>r := 1 / 8\<rparr>"
  have g: "gridDim ?sim = 97"
    by (simp add: gridDim_def defaultOptions_def u32_def u32_of_f32_def)
  have cc: "cellCoord 6 ?sim = 96"
    by (simp add: cellCoord_def defaultOptions_def clamp_def u32_of_f32_def)
  have pc: "particle_cell ?sim \<lparr>pos = ((6, 6), (0, 0))\<rparr> = 9408"
    by (simp add: particle_cell_def xy_def g cc cellIndex_def u32_def)
  have n: "length headsInit = 2704"
    by (simp add: headsInit_def maxCells_def maxDim_def)
  show ?thesis
    by (simp add: construct_step_def pc n) (simp add: defaultOptions_def)
qed

section \<open>The frame of the sim pass\<close>

lemma same_inputs_refl: "same_inputs pin g g"
  by (simp add: same_inputs_def)

lemma same_inputs_trans: "same_inputs pin g g1 \<Longrightarrow> same_inputs pin g1 g2 \<Longrightarrow> same_inputs pin g g2"
  by (simp add: same_inputs_def)

lemma same_inputs_bound_main: "same_inputs pin g g' \<Longrightarrow> bound_main g' pin idx = bound_main g pin idx"
  by (simp add: same_inputs_def bound_main_def)

lemma sim_main_no_write:
  assumes "sim_main sim particles matrix heads linked colourIdx idx = Some (Inr None)"
  shows "length particles \<le> idx"
  using assms
  by (auto simp: sim_main_def Let_def split: if_splits sum.splits option.splits)

lemma sim_invocation_effect:
  assumes run: "sim_invocation (pin, pout) idx g = Some (Inr g')"
    and ne: "pin \<noteq> pout" and pout: "pout < length (particleBuffers g)"
  shows "same_inputs pin g g'"
    and "length (particleBuffers g' ! pout) = length (particleBuffers g ! pout)"
    and "i \<noteq> idx \<Longrightarrow> particleBuffers g' ! pout ! i = particleBuffers g ! pout ! i"
    and "idx < length (particleBuffers g ! pin) \<Longrightarrow>
           bound_main g pin idx = Some (Inr (Some (particleBuffers g' ! pout ! idx)))"
proof -
  consider (noop) "bound_main g pin idx = Some (Inr None)" "g' = g"
    | (stored) q where "bound_main g pin idx = Some (Inr (Some q))"
        "idx < length (particleBuffers g ! pout)"
        "g' = g\<lparr> particleBuffers := (particleBuffers g)[pout := (particleBuffers g ! pout)[idx := q]] \<rparr>"
    using run
    by (auto simp: sim_invocation_def Let_def split: option.splits sum.splits if_splits)
  then have "same_inputs pin g g'
    \<and> length (particleBuffers g' ! pout) = length (particleBuffers g ! pout)
    \<and> (i \<noteq> idx \<longrightarrow> particleBuffers g' ! pout ! i = particleBuffers g ! pout ! i)
    \<and> (idx < length (particleBuffers g ! pin) \<longrightarrow>
           bound_main g pin idx = Some (Inr (Some (particleBuffers g' ! pout ! idx))))"
  proof cases
    case noop
    from noop(1) have "length (particleBuffers g ! pin) \<le> idx"
      unfolding bound_main_def by (rule sim_main_no_write)
    with noop(2) show ?thesis by (simp add: same_inputs_refl)
  next
    case stored
    then show ?thesis using ne pout by (simp add: same_inputs_def)
  qed
  then show "same_inputs pin g g'"
    and "length (particleBuffers g' ! pout) = length (particleBuffers g ! pout)"
    and "i \<noteq> idx \<Longrightarrow> particleBuffers g' ! pout ! i = particleBuffers g ! pout ! i"
    and "idx < length (particleBuffers g ! pin) \<Longrightarrow>
           bound_main g pin idx = Some (Inr (Some (particleBuffers g' ! pout ! idx)))"
    by simp_all
qed

lemma sim_dispatch_effect:
  assumes "sim_dispatch (pin, pout) ord g = Some (Inr g')"
    and "pin \<noteq> pout" and "pout < length (particleBuffers g)"
  shows "same_inputs pin g g'
       \<and> length (particleBuffers g' ! pout) = length (particleBuffers g ! pout)
       \<and> (\<forall>i. i \<notin> set ord \<longrightarrow> particleBuffers g' ! pout ! i = particleBuffers g ! pout ! i)
       \<and> (\<forall>i \<in> set ord. i < length (particleBuffers g ! pin) \<longrightarrow>
             bound_main g pin i = Some (Inr (Some (particleBuffers g' ! pout ! i))))"
  using assms
proof (induction ord arbitrary: g)
  case Nil
  then show ?case by (simp add: same_inputs_refl)
next
  case (Cons idx ord)
  from Cons.prems(1) obtain g1 where s1: "sim_invocation (pin, pout) idx g = Some (Inr g1)"
    and rest: "sim_dispatch (pin, pout) ord g1 = Some (Inr g')"
    by (auto split: option.splits sum.splits)
  note e = sim_invocation_effect [OF s1 Cons.prems(2,3)]
  have p1: "pout < length (particleBuffers g1)" using e(1) Cons.prems(3) by (simp add: same_inputs_def)
  note ih = Cons.IH [OF rest Cons.prems(2) p1]
  have in1: "particleBuffers g1 ! pin = particleBuffers g ! pin" using e(1) by (simp add: same_inputs_def)
  have bm: "bound_main g1 pin i = bound_main g pin i" for i
    using e(1) by (rule same_inputs_bound_main)
  have a: "same_inputs pin g g'" using e(1) ih by (blast intro: same_inputs_trans)
  have b: "length (particleBuffers g' ! pout) = length (particleBuffers g ! pout)"
    using e(2) ih by simp
  have c: "particleBuffers g' ! pout ! i = particleBuffers g ! pout ! i" if "i \<notin> set (idx # ord)" for i
    using that e(3) [of i] ih by simp
  have d: "bound_main g pin i = Some (Inr (Some (particleBuffers g' ! pout ! i)))"
    if "i \<in> set (idx # ord)" "i < length (particleBuffers g ! pin)" for i
  proof (cases "i \<in> set ord")
    case True
    then show ?thesis using ih that(2) in1 bm by simp
  next
    case False
    then have "i = idx" using that(1) by simp
    moreover have "particleBuffers g' ! pout ! i = particleBuffers g1 ! pout ! i"
      using ih False by simp
    ultimately show ?thesis using e(4) that(2) by simp
  qed
  from a b c d show ?case by blast
qed

lemma sim_main_write_bound:
  assumes "sim_main sim particles matrix heads linked colourIdx idx = Some (Inr (Some q))"
  shows "idx < length particles"
  using assms
  by (auto simp: sim_main_def Let_def split: if_splits sum.splits option.splits)

lemma sim_invocation_total:
  assumes "bound_main g pin idx = Some (Inr res)"
    and "length (particleBuffers g ! pin) \<le> length (particleBuffers g ! pout)"
  shows "\<exists>g'. sim_invocation (pin, pout) idx g = Some (Inr g')"
proof (cases res)
  case None
  then show ?thesis using assms(1) by (simp add: sim_invocation_def)
next
  case (Some q)
  then have "idx < length (particleBuffers g ! pin)"
    using assms(1) unfolding bound_main_def by (auto dest: sim_main_write_bound)
  then show ?thesis using assms Some by (simp add: sim_invocation_def)
qed

lemma sim_dispatch_total:
  assumes "\<forall>idx. \<exists>res. bound_main g pin idx = Some (Inr res)"
    and "length (particleBuffers g ! pin) \<le> length (particleBuffers g ! pout)"
    and "pin \<noteq> pout" and "pout < length (particleBuffers g)"
  shows "\<exists>g'. sim_dispatch (pin, pout) ord g = Some (Inr g')"
  using assms
proof (induction ord arbitrary: g)
  case Nil
  then show ?case by simp
next
  case (Cons idx ord)
  from Cons.prems(1) obtain res where "bound_main g pin idx = Some (Inr res)" by blast
  from sim_invocation_total [OF this Cons.prems(2)]
  obtain g1 where s1: "sim_invocation (pin, pout) idx g = Some (Inr g1)" by blast
  note e = sim_invocation_effect [OF s1 Cons.prems(3,4)]
  have 1: "\<forall>idx. \<exists>res. bound_main g1 pin idx = Some (Inr res)"
    using Cons.prems(1) same_inputs_bound_main [OF e(1)] by simp
  have 2: "length (particleBuffers g1 ! pin) \<le> length (particleBuffers g1 ! pout)"
    using Cons.prems(2) e(1,2) by (simp add: same_inputs_def)
  have 3: "pout < length (particleBuffers g1)" using e(1) Cons.prems(4) by (simp add: same_inputs_def)
  from Cons.IH [OF 1 2 Cons.prems(3) 3] s1 show ?case by simp
qed


lemma i32_id:
  assumes "0 \<le> z" and "z < 2147483648"
  shows "i32 z = z"
  using assms by (simp add: i32_def)

lemma cell_in_grid:
  fixes nx ny gdim :: int
  assumes "0 \<le> nx" "nx < gdim" "0 \<le> ny" "ny < gdim"
  shows "0 \<le> ny * gdim + nx" and "ny * gdim + nx < gdim * gdim"
proof -
  show "0 \<le> ny * gdim + nx" using assms by simp
  have "ny * gdim \<le> (gdim - 1) * gdim"
    using assms by (intro mult_right_mono) simp_all
  then show "ny * gdim + nx < gdim * gdim" using assms(2) by (simp add: algebra_simps)
qed

lemma matrix_index_less:
  assumes "a < n" and "b < n"
  shows "u32 (a * n + b) < n * n"
proof -
  have "a * n + b < Suc a * n" using assms(2) by simp
  also have "\<dots> \<le> n * n" using assms(1) by (simp add: Suc_leI mult_le_mono1 del: mult_Suc)
  finally have "a * n + b < n * n" .
  moreover have "u32 (a * n + b) \<le> a * n + b" by (simp add: u32_def)
  ultimately show ?thesis by simp
qed

lemma interact_ok:
  assumes i: "i < length particles" and len: "length particles \<le> length colourIdx"
    and col: "\<forall>c \<in> set colourIdx. c < colours sim"
    and mat: "colours sim * colours sim \<le> length matrix"
    and my: "myColour < colours sim"
  shows "\<exists>acc'. interact sim particles matrix colourIdx idx myColour p acc (int i) = Inr acc'"
proof -
  have lp: "load particles (int i) = Inr (particles ! i)" using i by (simp add: load_def)
  have ic: "i < length colourIdx" using i len by simp
  then have lc: "load colourIdx (int i) = Inr (colourIdx ! i)" by (simp add: load_def)
  have "colourIdx ! i < colours sim" using col ic by simp
  then have "u32 (myColour * colours sim + colourIdx ! i) < length matrix"
    using matrix_index_less [OF my, of "colourIdx ! i"] mat by simp
  then have lm: "load matrix (int (u32 (myColour * colours sim + colourIdx ! i)))
                   = Inr (matrix ! u32 (myColour * colours sim + colourIdx ! i))"
    by (simp add: load_def)
  show ?thesis
    by (simp add: interact_def Let_def lp lc lm)
qed

lemma run_body_ok:
  assumes "\<forall>i \<in> set xs. \<forall>acc. \<exists>acc'. body acc (int i) = Inr acc'"
  shows "\<exists>acc'. run_body body acc xs = Inr acc'"
  using assms
proof (induction xs arbitrary: acc)
  case Nil
  then show ?case by simp
next
  case (Cons i xs)
  from Cons.prems have "\<exists>acc1. body acc (int i) = Inr acc1" by simp
  then obtain acc1 where b: "body acc (int i) = Inr acc1" ..
  from Cons.prems have "\<forall>i \<in> set xs. \<forall>acc. \<exists>acc'. body acc (int i) = Inr acc'" by simp
  from Cons.IH [OF this, of acc1] b show ?case by simp
qed

lemma walk_ok:
  assumes "chain linked j xs"
    and "\<forall>i \<in> set xs. \<forall>acc. \<exists>acc'. body acc (int i) = Inr acc'"
  shows "\<exists>acc'. walk body linked acc j = Some (Inr acc')"
  using walk_chain [OF assms(1), of body acc] run_body_ok [OF assms(2), of acc] by auto

lemma neighbourhood_ok:
  assumes grid: "\<forall>c < length heads. \<exists>xs. chain linked (heads ! c) xs
                   \<and> (\<forall>i \<in> set xs. \<forall>acc. \<exists>acc'. body acc (int i) = Inr acc')"
    and fit: "gdim * gdim \<le> int (length heads)" and small: "gdim * gdim \<le> 2147483648"
  shows "\<exists>acc'. neighbourhood body heads linked gdim cx cy acc offs = Some (Inr acc')"
proof (induction offs arbitrary: acc)
  case Nil
  then show ?case by simp
next
  case (Cons o1 offs)
  obtain dx dy where o1: "o1 = (dx, dy)" by (cases o1)
  define nx where "nx = i32 (cx + dx)"
  define ny where "ny = i32 (cy + dy)"
  show ?case
  proof (cases "nx < 0 \<or> ny < 0 \<or> nx \<ge> gdim \<or> ny \<ge> gdim")
    case True
    then show ?thesis using Cons.IH [of acc] unfolding o1 by (simp add: nx_def ny_def Let_def)
  next
    case False
    then have b: "0 \<le> nx" "nx < gdim" "0 \<le> ny" "ny < gdim" by simp_all
    let ?c = "ny * gdim + nx"
    have c0: "0 \<le> ?c" and c1: "?c < gdim * gdim" using cell_in_grid [OF b] by simp_all
    have ci: "sim_cellIndex nx ny gdim = ?c"
      unfolding sim_cellIndex_def using c0 c1 small by (intro i32_id) simp_all
    have cl: "nat ?c < length heads" using c0 c1 fit by linarith
    then have ld: "load heads (sim_cellIndex nx ny gdim) = Inr (heads ! nat ?c)"
      unfolding ci using c0 by (simp add: load_def)
    from grid cl obtain xs where "chain linked (heads ! nat ?c) xs"
      and "\<forall>i \<in> set xs. \<forall>acc. \<exists>acc'. body acc (int i) = Inr acc'"
      by blast
    from walk_ok [OF this, of acc] obtain acc1
      where w: "walk body linked acc (heads ! nat ?c) = Some (Inr acc1)" by blast
    from Cons.IH [of acc1] obtain acc2
      where "neighbourhood body heads linked gdim cx cy acc1 offs = Some (Inr acc2)" by blast
    then show ?thesis
      unfolding o1 using False ld w by (simp add: nx_def [symmetric] ny_def [symmetric] Let_def)
  qed
qed

lemma gridDim_small:
  assumes "gridDim sim * gridDim sim \<le> n" and "n \<le> 2147483648"
  shows "i32_of_u32 (gridDim sim) = int (gridDim sim)"
proof -
  have "gridDim sim \<le> gridDim sim * gridDim sim" by (cases "gridDim sim") simp_all
  then have "gridDim sim \<le> 2147483648" using assms by linarith
  moreover have "gridDim sim \<noteq> 2147483648"
  proof
    assume "gridDim sim = 2147483648"
    then show False using assms by simp
  qed
  ultimately show ?thesis by (simp add: i32_of_u32_def)
qed

lemma sim_main_total:
  assumes len: "length particles \<le> length colourIdx"
    and col: "\<forall>c \<in> set colourIdx. c < colours sim"
    and mat: "colours sim * colours sim \<le> length matrix"
    and grid: "\<forall>c < length heads. \<exists>xs. chain linked (heads ! c) xs \<and> set xs \<subseteq> {..<length particles}"
    and fit: "gridDim sim * gridDim sim \<le> length heads" and small: "length heads \<le> 2147483648"
  shows "\<exists>res. sim_main sim particles matrix heads linked colourIdx idx = Some (Inr res)"
proof (cases "idx < length particles")
  case False
  then show ?thesis by (simp add: sim_main_def)
next
  case True
  then have ic: "idx < length colourIdx" using len by simp
  then have lc: "load colourIdx (int idx) = Inr (colourIdx ! idx)" by (simp add: load_def)
  have my: "colourIdx ! idx < colours sim" using col ic by simp
  let ?body = "interact sim particles matrix colourIdx idx (colourIdx ! idx) (xy (particles ! idx))"
  have ok: "\<exists>acc'. ?body acc (int i) = Inr acc'" if "i < length particles" for i acc
    using interact_ok [OF that len col mat my] by blast
  have g: "\<forall>c < length heads. \<exists>xs. chain linked (heads ! c) xs
                   \<and> (\<forall>i \<in> set xs. \<forall>acc. \<exists>acc'. ?body acc (int i) = Inr acc')"
    using grid ok by (meson lessThan_iff subsetD)
  have gd: "i32_of_u32 (gridDim sim) = int (gridDim sim)"
    using gridDim_small [OF fit small] .
  have f1: "int (gridDim sim) * int (gridDim sim) \<le> int (length heads)"
    using fit by (metis of_nat_le_iff of_nat_mult)
  have f2: "int (gridDim sim) * int (gridDim sim) \<le> 2147483648"
    using f1 small by linarith
  from neighbourhood_ok [OF g f1 f2]
  obtain acc' where "neighbourhood ?body heads linked (int (gridDim sim))
      (sim_cellCoord (fst (xy (particles ! idx))) sim)
      (sim_cellCoord (snd (xy (particles ! idx))) sim) (0, 0) offsets = Some (Inr acc')"
    by blast
  then show ?thesis
    using True by (simp add: sim_main_def Let_def lc gd)
qed


lemma simBindGroups_new_engine: "bg \<in> set (simBindGroups new_engine) \<longleftrightarrow> bg = (0, 1) \<or> bg = (1, 0)"
  by (auto simp: new_engine_def createBindGroups_def makeSimBG_def)

lemma sim_ready_grid:
  assumes "sim_ready g bg evs linked0"
  shows "\<forall>c < length (headsBuffer g). \<exists>xs. chain (linkedBuffer g) (headsBuffer g ! c) xs
            \<and> set xs \<subseteq> {..<length (particleBuffers g ! fst bg)}"
proof -
  let ?sim = "simBuffer g" and ?P = "particleBuffers g ! fst bg"
  let ?n = "length (headsBuffer g)"
  from assms have pos: "0 < r ?sim" "0 < worldSize ?sim" "worldSize ?sim * 2 / r ?sim \<le> 4294967294"
    and fit: "gridDim ?sim * gridDim ?sim \<le> ?n"
    and sch: "scheduled [] [] evs"
    and l: "length ?P \<le> length linked0" "length ?P \<le> 2147483648"
    and run: "construct_run ?sim ?P evs (replicate ?n (- 1), linked0, Map.empty)
               = Inr (headsBuffer g, linkedBuffer g, Map.empty)"
    by (simp_all add: sim_ready_def Let_def)
  have pc: "\<forall>p \<in> set ?P. particle_cell ?sim p < ?n"
    using particle_cell_less [OF pos] fit by (meson le_trans not_le)
  from construct_run_grid [OF sch l pc] run
  have inv: "grid_inv ?sim ?P (exchanges evs) (headsBuffer g) (linkedBuffer g)" by auto
  have "set (cell_list ?sim ?P (exchanges evs) c) \<subseteq> {..<length ?P}" for c
    by (auto simp: cell_list_def)
  with inv show ?thesis unfolding grid_inv_def by blast
qed

text \<open>
  C7.  Let the bind group be one of the two that \<open>createBindGroups\<close> makes, so that
  its output buffer is the other particle buffer, and let the dispatch run an
  invocation for every particle index.  Whenever the sim pass ends without a dynamic
  error, the input particle buffer is what it was before the pass, the output buffer
  has its length unchanged, and for every particle index it holds the record that
  \<open>main\<close> computes for that index from the input state.  In a store that is ready
  for the sim pass (\<open>sim_ready\<close>) the pass does end without a dynamic error, for
  every order of the invocations.
\<close>

theorem sim_pass_frame:
  assumes bg: "bg \<in> set (simBindGroups new_engine)"
    and two: "length (particleBuffers g) = 2"
    and cover: "{..<length (particleBuffers g ! fst bg)} \<subseteq> set ord"
  shows "snd bg = 1 - fst bg \<and> snd bg \<noteq> fst bg
       \<and> (\<forall>g'. sim_dispatch bg ord g = Some (Inr g') \<longrightarrow>
              particleBuffers g' ! fst bg = particleBuffers g ! fst bg
            \<and> length (particleBuffers g' ! snd bg) = length (particleBuffers g ! snd bg)
            \<and> (\<forall>i < length (particleBuffers g ! fst bg).
                  bound_main g (fst bg) i = Some (Inr (Some (particleBuffers g' ! snd bg ! i)))))
       \<and> (sim_ready g bg evs linked0 \<longrightarrow> (\<exists>g'. sim_dispatch bg ord g = Some (Inr g')))"
proof -
  obtain pin pout where p: "bg = (pin, pout)" by (cases bg)
  have ne: "pin \<noteq> pout" and po: "pout < length (particleBuffers g)" and op: "pout = 1 - pin"
    using bg two unfolding p simBindGroups_new_engine by auto
  have A: "particleBuffers g' ! pin = particleBuffers g ! pin
            \<and> length (particleBuffers g' ! pout) = length (particleBuffers g ! pout)
            \<and> (\<forall>i < length (particleBuffers g ! pin).
                  bound_main g pin i = Some (Inr (Some (particleBuffers g' ! pout ! i))))"
    if run: "sim_dispatch (pin, pout) ord g = Some (Inr g')" for g'
  proof -
    note e = sim_dispatch_effect [OF run ne po]
    have "i \<in> set ord" if "i < length (particleBuffers g ! pin)" for i
      using cover that unfolding p by auto
    with e show ?thesis by (simp add: same_inputs_def)
  qed
  have B: "\<exists>g'. sim_dispatch (pin, pout) ord g = Some (Inr g')"
    if rdy: "sim_ready g (pin, pout) evs linked0"
  proof -
    from rdy have len: "length (particleBuffers g ! pin) \<le> length (colourBuffer g)"
      and col: "\<forall>c \<in> set (colourBuffer g). c < colours (simBuffer g)"
      and mat: "colours (simBuffer g) * colours (simBuffer g) \<le> length (matrixBuffer g)"
      and fit: "gridDim (simBuffer g) * gridDim (simBuffer g) \<le> length (headsBuffer g)"
      and small: "length (headsBuffer g) \<le> 2147483648"
      and out: "length (particleBuffers g ! pin) \<le> length (particleBuffers g ! pout)"
      by (simp_all add: sim_ready_def Let_def)
    have grid: "\<forall>c < length (headsBuffer g). \<exists>xs. chain (linkedBuffer g) (headsBuffer g ! c) xs
            \<and> set xs \<subseteq> {..<length (particleBuffers g ! pin)}"
      using sim_ready_grid [OF rdy] by simp
    have "\<forall>idx. \<exists>res. bound_main g pin idx = Some (Inr res)"
      unfolding bound_main_def using sim_main_total [OF len col mat grid fit small] by blast
    from sim_dispatch_total [OF this out ne po] show ?thesis .
  qed
  from ne op A B show ?thesis unfolding p by auto
qed


theorem sim_pass_frame_witness:
  "\<exists>g'. sim_dispatch (0, 1) [0, 1] example_gpu = Some (Inr g')
      \<and> particleBuffers g' ! 0 = [\<lparr>pos = ((0, 0), (0, 0))\<rparr>, \<lparr>pos = ((3, 4), (0, 0))\<rparr>]
      \<and> length (particleBuffers g' ! 1) = 2"
proof -
  let ?sim = "defaultOptions\<lparr>colours := 2\<rparr>"
  have h1: "(0, 1) \<in> set (simBindGroups new_engine)"
    by (simp add: new_engine_def createBindGroups_def makeSimBG_def)
  have h2: "length (particleBuffers example_gpu) = 2" by (simp add: example_gpu_def)
  have h3: "{..<length (particleBuffers example_gpu ! fst (0 :: nat, 1 :: nat))} \<subseteq> set [0, 1]"
    by (auto simp: example_gpu_def)
  have g: "gridDim ?sim = 2"
    by (simp add: gridDim_def defaultOptions_def u32_def u32_of_f32_def)
  have cc: "cellCoord 0 ?sim = 0" "cellCoord 3 ?sim = 0" "cellCoord 4 ?sim = 0"
    by (simp_all add: cellCoord_def defaultOptions_def clamp_def u32_of_f32_def)
  have pc: "particle_cell ?sim \<lparr>pos = ((0, 0), (0, 0))\<rparr> = 0"
    "particle_cell ?sim \<lparr>pos = ((3, 4), (0, 0))\<rparr> = 0"
    by (simp_all add: particle_cell_def xy_def g cc cellIndex_def u32_def)
  have p: "0 < r defaultOptions" "0 < worldSize defaultOptions"
    "worldSize defaultOptions * 2 / r defaultOptions \<le> 4294967294"
    by (simp_all add: defaultOptions_def)
  have rdy: "sim_ready example_gpu (0, 1) [Exchange 0, Exchange 1, Store 1, Store 0] [0, 0]"
    unfolding sim_ready_def Let_def
    by (simp add: example_gpu_def p g construct_step_def pc i32_of_u32_def)
  from sim_pass_frame [OF h1 h2 h3, of "[Exchange 0, Exchange 1, Store 1, Store 0]" "[0, 0]"] rdy
  obtain g' where run: "sim_dispatch (0, 1) [0, 1] example_gpu = Some (Inr g')"
    and fr: "particleBuffers g' ! 0 = particleBuffers example_gpu ! 0"
      "length (particleBuffers g' ! 1) = length (particleBuffers example_gpu ! 1)"
    by auto
  then show ?thesis by (auto simp: example_gpu_def)
qed

end
